theory Spec2Isabelle
  imports Complex_Main "HOL-Library.Multiset" "HOL-Library.Char_ord" "HOL-Library.List_Lexorder"
    "HOL-Library.AList"
begin

section \<open>Feature-matrix loader of \<open>FeatureAnalysisChart.tsx\<close>\<close>

text \<open>
  The development embeds the module-level caches, the cache key builder
  \<open>getCacheKey\<close>, the effect \<open>fetchFeatureMatrix\<close> of the component
  \<open>ComprehensiveFeatureTable\<close> (per-subject fetcher \<open>fetchSubject\<close>, worker
  \<open>processNext\<close>, initial worker loop, cache write) and the click handler that
  generates the PCA projection.

  JavaScript numbers that the code only copies or compares (subject ids, study number,
  time stamps) are integers; feature values and projection coordinates are reals: the
  code performs no arithmetic on them. Strings are \<open>string\<close>, ordered by code unit
  (\<open>Char_ord\<close>, \<open>List_Lexorder\<close>), which is the order of \<open>Array.prototype.sort\<close>
  without a comparator.
\<close>

subsection \<open>Numbers in template strings\<close>

fun string_of_nat :: "nat \<Rightarrow> string" where
  "string_of_nat n =
     (if n < 10 then [''0123456789'' ! n]
      else string_of_nat (n div 10) @ [''0123456789'' ! (n mod 10)])"

declare string_of_nat.simps [simp del]

definition string_of_int :: "int \<Rightarrow> string" where
  "string_of_int i =
     (if i < 0 then CHR ''-'' # string_of_nat (nat (- i)) else string_of_nat (nat i))"

text \<open>\<open>Array.prototype.join\<close> with a separator.\<close>

fun join :: "string \<Rightarrow> string list \<Rightarrow> string" where
  "join sep [] = []"
| "join sep [x] = x"
| "join sep (x # y # ys) = x @ sep @ join sep (y # ys)"

subsection \<open>Cache key builder\<close>

text \<open>
  \<^verbatim>\<open>
  const getCacheKey = (studyNumber, features, subjectIds) => {
      return `${studyNumber}:${features.sort().join(',')}:${subjectIds.sort((a, b) => a - b).join(',')}`;
  };
  \<close>
  \<open>Array.prototype.sort\<close> sorts the array it is called on and returns that same array.
  The model returns the key together with the two argument arrays as the call leaves them.
\<close>

definition getCacheKey :: "int \<Rightarrow> string list \<Rightarrow> int list \<Rightarrow> string \<times> string list \<times> int list" where
  "getCacheKey studyNumber features subjectIds =
     (let features' = sort features;
          subjectIds' = sort subjectIds
      in (string_of_int studyNumber @ '':'' @ join '','' features' @ '':''
            @ join '','' (map string_of_int subjectIds'),
          features', subjectIds'))"

subsection \<open>Rows, responses and errors\<close>

text \<open>A thrown value or a rejected promise: an \<open>Error\<close> with its message.\<close>

datatype js_error = Error string

text \<open>
  \<^verbatim>\<open>
  interface SubjectEmotionFeatureRow {
      subjectId: number; emotion: string; color: string;
      features: Record<string, number>; pc1?: number; pc2?: number;
  }
  \<close>
  The object \<open>features\<close> is the list of its own properties in insertion order; assigning
  \<open>features[col] = v\<close> is \<open>AList.update col v\<close>.
\<close>

record SubjectEmotionFeatureRow =
  subjectId :: int
  emotion :: string
  color :: string
  features :: "(string \<times> real) list"
  pc1 :: "real option"
  pc2 :: "real option"

text \<open>
  An entry of \<open>FeatureMatrixResponse.rows\<close>: the three declared properties and the index
  signature \<open>[key: string]: number | string\<close>.
\<close>

datatype field = Num real | Str string

record raw_row =
  Subject :: int
  Emotion :: string
  x_color :: string
  cells :: "(string \<times> field) list"

text \<open>
  Of \<open>FeatureMatrixResponse\<close> the code reads \<open>rows\<close> and \<open>columns\<close>. \<open>rows = None\<close>: the
  property is absent or not an array (\<open>!result.rows || !Array.isArray(result.rows)\<close>);
  \<open>columns = None\<close>: the property is absent (falsy).
\<close>

record FeatureMatrixResponse =
  rows :: "raw_row list option"
  columns :: "string list option"

text \<open>
  What \<open>await fetch(url)\<close> gives: the promise rejects, or it resolves to a response with
  \<open>ok\<close>, \<open>status\<close> and a body that \<open>response.json()\<close> parses or rejects.
\<close>

datatype 'a body = Unparseable js_error | Json 'a

record 'a response =
  ok :: bool
  status :: nat
  json :: "'a body"

datatype 'a fetch_result = Rejected js_error | Resolved "'a response"

text \<open>\<open>item[col]\<close> on an entry of \<open>rows\<close>.\<close>

definition item_get :: "raw_row \<Rightarrow> string \<Rightarrow> field option" where
  "item_get item col =
     (if col = ''Subject'' then Some (Num (real_of_int (Subject item)))
      else if col = ''Emotion'' then Some (Str (Emotion item))
      else if col = ''_color'' then Some (Str (x_color item))
      else map_of (cells item) col)"

subsection \<open>State\<close>

text \<open>
  \<open>loadingProgress\<close>, the state that \<open>setLoadingProgress\<close> updates.
\<close>

record progress =
  current :: nat
  total :: nat
  currentBatch :: nat
  totalBatches :: nat

text \<open>
  An argument of \<open>setLoadingProgress\<close>. The code passes either an object, or the updater
  \<^verbatim>\<open>prev => ({...prev, current: completedCount, currentBatch: completedCount})\<close>,
  a closure over the variable \<open>completedCount\<close> of the running batch. React queues the
  argument and applies it when it next renders the component; the updater reads
  \<open>completedCount\<close> then, not when it was passed.
\<close>

datatype progress_update = SetProgress progress | CountUpdater

text \<open>
  The state of the loader: the module-level maps \<open>featureMatrixCache\<close> and \<open>pcaCache\<close>
  (entries are tuples: data, columns, timestamp; result, timestamp), the React state of
  the component, the variables that one run of \<open>fetchFeatureMatrix\<close> closes over, and the
  subjects whose \<open>fetch\<close> a worker is awaiting (one entry for each call of \<open>processNext\<close>
  that has not returned). \<open>progress_updates\<close> is the queue of arguments of
  \<open>setLoadingProgress\<close> that React has not applied yet. The setters that the code calls
  with a value computed at the call are assignments to the state: when React applies
  them makes no difference to the value. The last three fields record what the code
  shows to its environment: the subject ids of the requests issued, the successive values
  of \<open>loadingProgress\<close> (one for each update applied), and the arguments of
  \<open>console.error\<close>.
\<close>

record point =
  subject_id :: int
  pt_emotion :: string
  pt_color :: string
  pt_pc1 :: real
  pt_pc2 :: real

record FrequencyPCAResponse =
  variance_explained :: "real \<times> real"
  data_points :: "point list option"

record loader =
  featureMatrixCache :: "string \<rightharpoonup> (SubjectEmotionFeatureRow list \<times> string list \<times> int)"
  pcaCache :: "string \<rightharpoonup> (FrequencyPCAResponse \<times> int)"
  data :: "SubjectEmotionFeatureRow list"
  loading :: bool
  loadingPCA :: bool
  error :: "string option"
  featureColumns :: "string list"
  loadingProgress :: progress
  progress_updates :: "progress_update list"
  cacheKey :: string
  queue :: "int list"
  allRows :: "SubjectEmotionFeatureRow list"
  featureCols :: "string list"
  completedCount :: nat
  pending :: "int list"
  requests :: "int list"
  progress_log :: "progress list"
  console :: "(string \<times> js_error) list"

definition CACHE_DURATION_MS :: int where
  "CACHE_DURATION_MS = 5 * 60 * 1000"

definition CONCURRENCY_LIMIT :: nat where
  "CONCURRENCY_LIMIT = 5"

definition FFT_SUPPORTED_FEATURES :: "string list" where
  "FFT_SUPPORTED_FEATURES =
     [''ECG'', ''EDA'', ''SBP'', ''DBP'', ''temp'', ''respiration'', ''dzdt'', ''dz'', ''z0'']"

definition fftFeatures :: "string list \<Rightarrow> string list" where
  "fftFeatures availableColumns =
     filter (\<lambda>col. col \<in> set FFT_SUPPORTED_FEATURES) availableColumns"

subsection \<open>Per-subject fetcher\<close>

text \<open>
  The object literal returned for one entry of \<open>rows\<close>: the loop over \<open>featureCols\<close>
  assigns \<open>features[col]\<close> where \<open>typeof item[col] === 'number'\<close>.
\<close>

definition transform_row :: "string list \<Rightarrow> raw_row \<Rightarrow> SubjectEmotionFeatureRow" where
  "transform_row cols item =
     \<lparr>subjectId = Subject item, emotion = Emotion item, color = x_color item,
      features =
        fold (\<lambda>col fs. case item_get item col of
                Some (Num v) \<Rightarrow> AList.update col v fs
              | _ \<Rightarrow> fs) cols [],
      pc1 = None, pc2 = None\<rparr>"

text \<open>
  \<open>fetchSubject\<close> from the point where \<open>await fetch(...)\<close> settles (the request itself is
  issued by \<open>processNext\<close> below). A rejection and the \<open>throw\<close> are \<open>Inl\<close>.

  One settled fetch is one step of the model. In the code a successful fetch resumes a
  worker twice, after \<open>await response.json()\<close> in \<open>fetchSubject\<close> and after
  \<open>await fetchSubject(...)\<close> in \<open>processNext\<close>. The event loop runs these continuations
  one at a time and in the order in which they were queued; the only code of another
  worker that can run between the two is the first continuation of that worker, which
  reads and writes \<open>featureCols\<close> alone, while the second touches the accumulator, the
  counter, the queue and the display. The two therefore commute, and running them
  together gives the same state.
\<close>

definition fetchSubject ::
  "FeatureMatrixResponse fetch_result \<Rightarrow> loader \<Rightarrow> (js_error + SubjectEmotionFeatureRow list) \<times> loader" where
  "fetchSubject res s =
     (case res of
        Rejected e \<Rightarrow> (Inl e, s)
      | Resolved response \<Rightarrow>
          if \<not> ok response
          then (Inl (Error (''HTTP error! status: '' @ string_of_nat (status response))), s)
          else (case json response of
                  Unparseable e \<Rightarrow> (Inl e, s)
                | Json result \<Rightarrow>
                    (case rows result of
                       None \<Rightarrow> (Inr [], s)
                     | Some rs \<Rightarrow>
                         let s' = (case columns result of
                                     None \<Rightarrow> s
                                   | Some cs \<Rightarrow>
                                       if length (featureCols s) = 0
                                       then let fc = filter (\<lambda>col. col \<noteq> ''Subject'' \<and>
                                                        col \<noteq> ''Emotion'' \<and> col \<noteq> ''_color'') cs
                                            in s\<lparr>featureCols := fc, featureColumns := fc\<rparr>
                                       else s)
                         in (Inr (map (transform_row (featureCols s')) rs), s'))))"

subsection \<open>Bounded task scheduler\<close>

text \<open>
  \<open>processNext\<close> up to its \<open>await\<close>: with an empty queue the worker returns; otherwise it
  shifts the queue and \<open>fetchSubject\<close> issues the request. The result names the subject
  the worker now awaits.
\<close>

definition processNext :: "loader \<Rightarrow> loader \<times> int option" where
  "processNext s =
     (case queue s of
        [] \<Rightarrow> (s, None)
      | sid # rest \<Rightarrow>
          (s\<lparr>queue := rest, requests := requests s @ [sid]\<rparr>, Some sid))"

text \<open>
  The rest of \<open>processNext\<close> for the worker at position \<open>i\<close> of \<open>pending\<close>, when its fetch
  settles with \<open>res\<close>: the \<open>try\<close> block, the \<open>catch\<close> block, and the recursive call.
  \<open>None\<close>: there is no such worker. The updater given to \<open>setLoadingProgress\<close> is
  queued.
\<close>

definition resume :: "nat \<Rightarrow> FeatureMatrixResponse fetch_result \<Rightarrow> loader \<Rightarrow> loader option" where
  "resume i res s =
     (if i < length (pending s) then
        let sid = pending s ! i;
            (r, s1) = fetchSubject res s;
            s2 = (case r of
                    Inr rs \<Rightarrow>
                      let s' = s1\<lparr>allRows := allRows s1 @ rs,
                                  completedCount := completedCount s1 + 1\<rparr>
                      in s'\<lparr>progress_updates := progress_updates s' @ [CountUpdater],
                            data := allRows s'\<rparr>
                  | Inl err \<Rightarrow>
                      s1\<lparr>console := console s1 @
                           [(''Failed to fetch subject '' @ string_of_int sid @ '':'', err)]\<rparr>);
            (s3, nxt) = processNext s2
        in Some (case nxt of
                   None \<Rightarrow> s3\<lparr>pending := take i (pending s3) @ drop (Suc i) (pending s3)\<rparr>
                 | Some sid' \<Rightarrow> s3\<lparr>pending := (pending s3)[i := sid']\<rparr>)
      else None)"

text \<open>
  A run of the event loop: the environment settles the fetch of one awaiting worker
  after the other, in any order and with any result.
\<close>

type_synonym event = "nat \<times> FeatureMatrixResponse fetch_result"

fun run :: "event list \<Rightarrow> loader \<Rightarrow> loader option" where
  "run [] s = Some s"
| "run ((i, res) # evs) s =
     (case resume i res s of None \<Rightarrow> None | Some s' \<Rightarrow> run evs s')"

text \<open>One iteration of the loop \<open>inFlight.push(processNext())\<close>.\<close>

definition spawn :: "loader \<Rightarrow> loader" where
  "spawn s =
     (case processNext s of
        (s', None) \<Rightarrow> s'
      | (s', Some sid) \<Rightarrow> s'\<lparr>pending := pending s' @ [sid]\<rparr>)"

subsection \<open>Rendering\<close>

text \<open>
  One queued update applied to the previous value of \<open>loadingProgress\<close>; \<open>c\<close> is the
  value of \<open>completedCount\<close> when the update is applied.
\<close>

fun apply_update :: "nat \<Rightarrow> progress_update \<Rightarrow> progress \<Rightarrow> progress" where
  "apply_update c (SetProgress p) prev = p"
| "apply_update c CountUpdater prev = prev\<lparr>current := c, currentBatch := c\<rparr>"

text \<open>The values that \<open>loadingProgress\<close> takes as a queue of updates is applied in order.\<close>

fun apply_updates :: "nat \<Rightarrow> progress_update list \<Rightarrow> progress \<Rightarrow> progress list" where
  "apply_updates c [] prev = []"
| "apply_updates c (u # us) prev = apply_update c u prev # apply_updates c us (apply_update c u prev)"

text \<open>
  A render of the component: React applies the queued updates, and \<open>loadingProgress\<close>
  is the last value.
\<close>

definition render :: "loader \<Rightarrow> loader" where
  "render s =
     (let ps = apply_updates (completedCount s) (progress_updates s) (loadingProgress s)
      in if ps = [] then s
         else s\<lparr>loadingProgress := last ps, progress_log := progress_log s @ ps,
                progress_updates := []\<rparr>)"

text \<open>
  A run in which the component is rendered at any time between the steps of the workers.
  \<open>run\<close> above is the run without renders: a render changes \<open>loadingProgress\<close>, its
  queue and its log, and nothing else.
\<close>

datatype step = Settle nat "FeatureMatrixResponse fetch_result" | Render

fun run_steps :: "step list \<Rightarrow> loader \<Rightarrow> loader option" where
  "run_steps [] s = Some s"
| "run_steps (Settle i res # steps) s =
     (case resume i res s of None \<Rightarrow> None | Some s' \<Rightarrow> run_steps steps s')"
| "run_steps (Render # steps) s = run_steps steps (render s)"

subsection \<open>The effect \<open>fetchFeatureMatrix\<close>\<close>

datatype phase = Returned | Awaiting

text \<open>
  \<open>fetchFeatureMatrix\<close> up to \<open>await Promise.all(inFlight)\<close>, with \<open>now\<close> the value of
  \<open>Date.now()\<close>. The result says whether the function has returned or awaits its
  workers, and gives the array \<open>subjectIds\<close> of the props as the call leaves it.
\<close>

definition fetchFeatureMatrix_begin ::
  "int \<Rightarrow> string list \<Rightarrow> int list \<Rightarrow> int \<Rightarrow> loader \<Rightarrow> phase \<times> int list \<times> loader" where
  "fetchFeatureMatrix_begin studyNumber availableColumns subjectIds now s =
     (if length subjectIds = 0 \<or> length (fftFeatures availableColumns) = 0
      then (Returned, subjectIds, s\<lparr>data := [], loading := False\<rparr>)
      else
        let (key, features', subjectIds') =
              getCacheKey studyNumber (fftFeatures availableColumns) subjectIds;
            p = \<lparr>current = 0, total = length subjectIds', currentBatch = 0,
                 totalBatches = length subjectIds'\<rparr>;
            s0 = s\<lparr>loading := True, error := None, data := [],
                   progress_updates := progress_updates s @ [SetProgress p], cacheKey := key,
                   queue := subjectIds', allRows := [], featureCols := [],
                   completedCount := 0, pending := []\<rparr>;
            started = (spawn ^^ min CONCURRENCY_LIMIT (length subjectIds')) s0
        in case featureMatrixCache s key of
             None \<Rightarrow> (Awaiting, subjectIds', started)
           | Some (d, c, timestamp) \<Rightarrow>
               if now - timestamp < CACHE_DURATION_MS
               then (Returned, subjectIds', s\<lparr>data := d, featureColumns := c, loading := False\<rparr>)
               else (Awaiting, subjectIds', started))"



subsection \<open>PCA request orchestrator\<close>

text \<open>
  The \<open>map\<close> over \<open>pcaResult.data_points\<close> in the click handler: \<open>data.find\<close> gives the
  first row with the point's subject id and emotion, and
  \<open>matchingRow?.features || {}\<close> its features or the empty object.
\<close>

definition dataWithPCA :: "SubjectEmotionFeatureRow list \<Rightarrow> point list \<Rightarrow> SubjectEmotionFeatureRow list" where
  "dataWithPCA rs pts =
     map (\<lambda>item.
        let matchingRow = find (\<lambda>d. subjectId d = subject_id item \<and> emotion d = pt_emotion item) rs
        in \<lparr>subjectId = subject_id item, emotion = pt_emotion item, color = pt_color item,
            features = (case matchingRow of None \<Rightarrow> [] | Some d \<Rightarrow> features d),
            pc1 = Some (pt_pc1 item), pc2 = Some (pt_pc2 item)\<rparr>) pts"

text \<open>
  The \<open>try\<close> block of the handler. \<open>t0\<close> and \<open>t1\<close> are the values of \<open>Date.now()\<close> at
  the cache check and at the cache write, \<open>res\<close> is what the aggregate fetch settles
  with when it is issued. \<open>Inr\<close> carries the arguments of \<open>onGeneratePCA\<close>.
\<close>

definition generatePCA_try ::
  "int \<Rightarrow> string list \<Rightarrow> int list \<Rightarrow> int \<Rightarrow> FrequencyPCAResponse fetch_result \<Rightarrow> int \<Rightarrow> loader \<Rightarrow>
   (js_error + string list \<times> SubjectEmotionFeatureRow list \<times> real \<times> real) \<times> int list \<times> loader" where
  "generatePCA_try studyNumber availableColumns subjectIds t0 res t1 s =
     (let (pcaCacheKey, features', subjectIds') =
            getCacheKey studyNumber (fftFeatures availableColumns) subjectIds;
          fetched =
            (case res of
               Rejected e \<Rightarrow> (Inl e, s)
             | Resolved response \<Rightarrow>
                 if \<not> ok response
                 then (Inl (Error (''HTTP error! status: '' @ string_of_nat (status response))), s)
                 else (case json response of
                         Unparseable e \<Rightarrow> (Inl e, s)
                       | Json pcaResult \<Rightarrow>
                           (Inr pcaResult,
                            s\<lparr>pcaCache := (pcaCache s)(pcaCacheKey \<mapsto> (pcaResult, t1))\<rparr>)));
          (r, s1) =
            (case pcaCache s pcaCacheKey of
               None \<Rightarrow> fetched
             | Some (result, timestamp) \<Rightarrow>
                 if t0 - timestamp < CACHE_DURATION_MS then (Inr result, s) else fetched)
      in case r of
           Inl e \<Rightarrow> (Inl e, subjectIds', s1)
         | Inr pcaResult \<Rightarrow>
             (case data_points pcaResult of
                None \<Rightarrow> (Inl (Error ''Invalid PCA response: data_points not found''), subjectIds', s1)
              | Some pts \<Rightarrow>
                  (Inr (featureColumns s1, dataWithPCA (data s1) pts, variance_explained pcaResult),
                   subjectIds', s1)))"

text \<open>
  The whole handler: \<open>setLoadingPCA(true)\<close>, \<open>setError(null)\<close>, the \<open>try\<close> block, the
  \<open>catch\<close> block (\<open>console.error\<close>, \<open>setError(err.message)\<close>) and \<open>finally\<close>. The result
  is the call of \<open>onGeneratePCA\<close>, when there is one.
\<close>

definition generatePCA ::
  "int \<Rightarrow> string list \<Rightarrow> int list \<Rightarrow> int \<Rightarrow> FrequencyPCAResponse fetch_result \<Rightarrow> int \<Rightarrow> loader \<Rightarrow>
   (string list \<times> SubjectEmotionFeatureRow list \<times> real \<times> real) option \<times> int list \<times> loader" where
  "generatePCA studyNumber availableColumns subjectIds t0 res t1 s =
     (case generatePCA_try studyNumber availableColumns subjectIds t0 res t1
             (s\<lparr>loadingPCA := True, error := None\<rparr>) of
        (Inr call, ids', s') \<Rightarrow> (Some call, ids', s'\<lparr>loadingPCA := False\<rparr>)
      | (Inl (Error msg), ids', s') \<Rightarrow>
          (None, ids',
           s'\<lparr>console := console s' @ [(''PCA generation failed:'', Error msg)],
              error := Some msg, loadingPCA := False\<rparr>))"

text \<open>
  The loader when the module is loaded and the component mounted: empty caches and the
  initial values of the \<open>useState\<close> calls.
\<close>

definition mounted :: loader where
  "mounted =
     \<lparr>featureMatrixCache = Map.empty, pcaCache = Map.empty, data = [], loading = True,
      loadingPCA = False, error = None, featureColumns = [],
      loadingProgress = \<lparr>current = 0, total = 0, currentBatch = 0, totalBatches = 0\<rparr>,
      progress_updates = [], cacheKey = [], queue = [], allRows = [], featureCols = [], completedCount = 0,
      pending = [], requests = [], progress_log = [], console = []\<rparr>"

subsection \<open>Observations on a settled fetch\<close>

text \<open>
  Two functions of the result of a fetch alone, used to state the properties below: the
  fetch succeeded (the promise resolved, the status is a success status and the body
  parsed), and the row collection of a successful response (empty when the fetch failed
  or the collection is absent).
\<close>

definition succeeds :: "'a fetch_result \<Rightarrow> bool" where
  "succeeds res =
     (case res of
        Rejected e \<Rightarrow> False
      | Resolved response \<Rightarrow>
          ok response \<and> (case json response of Unparseable e \<Rightarrow> False | Json result \<Rightarrow> True))"

definition response_rows :: "FeatureMatrixResponse fetch_result \<Rightarrow> raw_row list" where
  "response_rows res =
     (case res of
        Rejected e \<Rightarrow> []
      | Resolved response \<Rightarrow>
          if ok response
          then (case json response of
                  Unparseable e \<Rightarrow> []
                | Json result \<Rightarrow> (case rows result of None \<Rightarrow> [] | Some rs \<Rightarrow> rs))
          else [])"

text \<open>
  The feature columns that a settled fetch offers for capture: those of a successful
  response that has a row collection and a column list, without the identity and colour
  fields; empty otherwise.
\<close>

definition captured_columns :: "FeatureMatrixResponse fetch_result \<Rightarrow> string list" where
  "captured_columns res =
     (case res of
        Rejected e \<Rightarrow> []
      | Resolved response \<Rightarrow>
          if ok response
          then (case json response of
                  Unparseable e \<Rightarrow> []
                | Json result \<Rightarrow>
                    (case rows result of
                       None \<Rightarrow> []
                     | Some rs \<Rightarrow>
                         (case columns result of
                            None \<Rightarrow> []
                          | Some cs \<Rightarrow>
                              filter (\<lambda>col. col \<noteq> ''Subject'' \<and> col \<noteq> ''Emotion'' \<and>
                                       col \<noteq> ''_color'') cs)))
          else [])"

text \<open>
  On the steps of a run with renders: a step is the settling of a fetch, and it is the
  settling of a fetch that succeeded.
\<close>

fun is_settle :: "step \<Rightarrow> bool" where
  "is_settle (Settle i res) = True"
| "is_settle Render = False"

fun step_succeeds :: "step \<Rightarrow> bool" where
  "step_succeeds (Settle i res) = succeeds res"
| "step_succeeds Render = False"

text \<open>
  The invariant of the progress display during a batch of \<open>n\<close> subjects that started
  with the log \<open>log0\<close>. Before the first render the queue holds the initial object and
  one updater for each success. Afterwards the queue holds one updater for each success
  since the last render that applied one, the counts logged are non-decreasing, and the
  count on display is the number of successes at that render.
\<close>

definition progress_inv :: "nat \<Rightarrow> progress list \<Rightarrow> loader \<Rightarrow> bool" where
  "progress_inv n log0 s \<longleftrightarrow>
     (progress_updates s =
        SetProgress \<lparr>current = 0, total = n, currentBatch = 0, totalBatches = n\<rparr>
          # replicate (completedCount s) CountUpdater \<and>
      progress_log s = log0) \<or>
     (\<exists>pubs m.
        progress_updates s = replicate m CountUpdater \<and>
        progress_log s = log0 @ pubs \<and> pubs \<noteq> [] \<and>
        loadingProgress s = last pubs \<and>
        sorted (map current pubs) \<and>
        (\<forall>p \<in> set pubs. total p = n) \<and>
        current (last pubs) + m = completedCount s \<and>
        length pubs + m = Suc (completedCount s))"


definition row_key :: "SubjectEmotionFeatureRow \<Rightarrow> int \<times> string \<times> string" where
  "row_key r = (subjectId r, emotion r, color r)"

subsection \<open>Sample responses\<close>

text \<open>Concrete responses for the worked examples of the next section.\<close>

definition sample_row :: "int \<Rightarrow> string \<Rightarrow> raw_row" where
  "sample_row n e =
     \<lparr>Subject = n, Emotion = e, x_color = ''#ff0000'',
      cells = [(''ECG_mean'', Num 72), (''EDA_mean'', Num 3), (''note'', Str ''ok'')]\<rparr>"

definition sample_ok :: "raw_row list \<Rightarrow> string list \<Rightarrow> FeatureMatrixResponse fetch_result" where
  "sample_ok rs cs =
     Resolved \<lparr>ok = True, status = 200, json = Json \<lparr>rows = Some rs, columns = Some cs\<rparr>\<rparr>"

definition sample_no_rows :: "string list \<Rightarrow> FeatureMatrixResponse fetch_result" where
  "sample_no_rows cs =
     Resolved \<lparr>ok = True, status = 200, json = Json \<lparr>rows = None, columns = Some cs\<rparr>\<rparr>"

definition sample_failure :: "nat \<Rightarrow> 'a fetch_result" where
  "sample_failure code =
     Resolved \<lparr>ok = False, status = code, json = Unparseable (Error ''Unexpected token'')\<rparr>"

text \<open>
  A batch: study 3, the available columns of the study, and the state in which the effect
  awaits its workers when it is run in the mounted component.
\<close>

definition sample_columns :: "string list" where
  "sample_columns = [''ECG'', ''time'', ''EDA'']"

definition sample_started :: "int list \<Rightarrow> loader" where
  "sample_started ids = snd (snd (fetchFeatureMatrix_begin 3 sample_columns ids 0 mounted))"

text \<open>
  Subjects 1, 2, 3: the fetch of subject 2 fails with status 500, then those of subjects
  1 and 3 succeed.
\<close>

definition sample_events :: "event list" where
  "sample_events =
     [(1, sample_failure 500),
      (0, sample_ok [sample_row 1 ''Fear'', sample_row 1 ''Anger'']
            [''Subject'', ''Emotion'', ''ECG_mean'', ''note'']),
      (0, sample_ok [sample_row 3 ''Fear''] [''Subject'', ''Emotion'', ''EDA_mean''])]"

text \<open>
  The same batch with a render at its start and after each settled fetch, and a batch in
  which the three fetches succeed before the component is rendered.
\<close>

definition sample_steps :: "step list" where
  "sample_steps =
     [Render,
      Settle 1 (sample_failure 500), Render,
      Settle 0 (sample_ok [sample_row 1 ''Fear'', sample_row 1 ''Anger'']
                  [''Subject'', ''Emotion'', ''ECG_mean'', ''note'']), Render,
      Settle 0 (sample_ok [sample_row 3 ''Fear''] [''Subject'', ''Emotion'', ''EDA_mean'']), Render]"

definition sample_steps_success :: "step list" where
  "sample_steps_success =
     [Settle 0 (sample_ok [sample_row 1 ''Fear''] [''Subject'', ''Emotion'', ''ECG_mean'']),
      Settle 0 (sample_ok [sample_row 2 ''Fear''] [''Subject'', ''Emotion'', ''ECG_mean'']),
      Settle 0 (sample_ok [sample_row 3 ''Fear''] [''Subject'', ''Emotion'', ''ECG_mean'']),
      Render]"

text \<open>
  Subjects 1, 2, 3: the response for subject 1 has a column list and no row collection,
  the one for subject 2 lists the identity and colour fields only, the one for subject 3
  lists \<open>EDA_mean\<close>.
\<close>

definition sample_events_columns :: "event list" where
  "sample_events_columns =
     [(0, sample_no_rows [''Subject'', ''Emotion'', ''ECG_mean'']),
      (0, sample_ok [sample_row 2 ''Fear''] [''Subject'', ''Emotion'', ''_color'']),
      (0, sample_ok [sample_row 3 ''Fear''] [''Subject'', ''Emotion'', ''EDA_mean''])]"

text \<open>
  Three rows on display, and PCA responses: one with points for subjects 1 and 2 only,
  one without the point collection.
\<close>

definition sample_rows :: "SubjectEmotionFeatureRow list" where
  "sample_rows =
     map (transform_row [''ECG_mean'', ''EDA_mean''])
       [sample_row 1 ''Fear'', sample_row 2 ''Fear'', sample_row 3 ''Fear'']"

definition sample_points :: "point list" where
  "sample_points =
     [\<lparr>subject_id = 1, pt_emotion = ''Fear'', pt_color = ''#00ff00'', pt_pc1 = 4, pt_pc2 = - 1\<rparr>,
      \<lparr>subject_id = 2, pt_emotion = ''Fear'', pt_color = ''#00ff00'', pt_pc1 = 2, pt_pc2 = 5\<rparr>]"

definition sample_pca :: "point list option \<Rightarrow> FrequencyPCAResponse fetch_result" where
  "sample_pca pts =
     Resolved \<lparr>ok = True, status = 200,
               json = Json \<lparr>variance_explained = (2, 1), data_points = pts\<rparr>\<rparr>"

section \<open>Properties\<close>

subsection \<open>Cache key builder\<close>

lemma sort_eq_of_mset_eq:
  fixes xs ys :: "'a::linorder list"
  assumes "mset xs = mset ys"
  shows "sort xs = sort ys"
proof (rule properties_for_sort)
  show "mset (sort ys) = mset xs" using assms by simp
  show "sorted (sort ys)" by simp
qed

text \<open>
  C6. The key is the same for any permutation of the feature list and any permutation
  of the subject-id list (two lists are permutations of each other when they have the
  same multiset of elements).
\<close>

theorem getCacheKey_permutation_invariant:
  assumes "mset feats' = mset feats" and "mset subjectIds' = mset subjectIds"
  shows "fst (getCacheKey studyNumber feats' subjectIds')
       = fst (getCacheKey studyNumber feats subjectIds)"
  using sort_eq_of_mset_eq [OF assms(1)] sort_eq_of_mset_eq [OF assms(2)]
  by (simp add: getCacheKey_def Let_def)

theorem getCacheKey_permutation_invariant_witness:
  "mset [''EDA'', ''ECG''] = mset [''ECG'', ''EDA''] \<and> mset [7, 2, 5 :: int] = mset [5, 7, 2] \<and>
   fst (getCacheKey 3 [''EDA'', ''ECG''] [7, 2, 5]) = fst (getCacheKey 3 [''ECG'', ''EDA''] [5, 7, 2]) \<and>
   fst (getCacheKey 3 [''EDA'', ''ECG''] [7, 2, 5]) = ''3:ECG,EDA:2,5,7''"
proof -
  have f: "mset [''EDA'', ''ECG''] = mset [''ECG'', ''EDA'']" by simp
  have i: "mset [7, 2, 5 :: int] = mset [5, 7, 2]" by simp
  have k: "fst (getCacheKey 3 [''EDA'', ''ECG''] [7, 2, 5]) = ''3:ECG,EDA:2,5,7''"
    by (simp add: getCacheKey_def string_of_int_def string_of_nat.simps)
  from getCacheKey_permutation_invariant [OF f i, of 3] f i k show ?thesis by simp
qed

text \<open>
  What the call does to its arguments, for all arguments: it leaves each array holding
  the same elements in ascending order, so an array is unchanged exactly when it was
  sorted already; the key is built from the sorted arrays.
\<close>

lemma getCacheKey_leaves_arguments_sorted:
  assumes "getCacheKey studyNumber feats subjectIds = (key, feats', subjectIds')"
  shows "sorted feats' \<and> mset feats' = mset feats \<and>
         sorted subjectIds' \<and> mset subjectIds' = mset subjectIds \<and>
         (feats' = feats \<longleftrightarrow> sorted feats) \<and>
         (subjectIds' = subjectIds \<longleftrightarrow> sorted subjectIds) \<and>
         key = string_of_int studyNumber @ '':'' @ join '','' feats' @ '':''
                 @ join '','' (map string_of_int subjectIds')"
proof -
  from assms have f: "feats' = sort feats" and i: "subjectIds' = sort subjectIds"
    and k: "key = string_of_int studyNumber @ '':'' @ join '','' (sort feats) @ '':''
                 @ join '','' (map string_of_int (sort subjectIds))"
    by (auto simp: getCacheKey_def Let_def)
  have "sort feats = feats \<longleftrightarrow> sorted feats"
    by (metis sorted_sort sorted_sort_id)
  moreover have "sort subjectIds = subjectIds \<longleftrightarrow> sorted subjectIds"
    by (metis sorted_sort sorted_sort_id)
  ultimately show ?thesis using f i k by simp
qed

text \<open>
  C9. The call is not free of side effects: it sorts both argument arrays in place. Here
  the feature list \<open>[EDA, ECG]\<close> and the id list \<open>[2, 1]\<close> are both changed by the call.
  In the component the id list is the prop \<open>subjectIds\<close>: mounted with \<open>[3, 1, 2]\<close>, the
  effect leaves the prop as \<open>[1, 2, 3]\<close>, and the value \<open>subjectIds.join(',')\<close> on which
  the effect depends changes. Run again while the first batch is in flight, the effect
  misses the cache and issues the three requests a second time.
\<close>

theorem getCacheKey_sorts_arguments_in_place:
  "fst (snd (getCacheKey 3 [''EDA'', ''ECG''] [2, 1])) = [''ECG'', ''EDA''] \<and>
   snd (snd (getCacheKey 3 [''EDA'', ''ECG''] [2, 1])) = [1, 2] \<and>
   fst (snd (fetchFeatureMatrix_begin 3 sample_columns [3, 1, 2] 0 mounted)) = [1, 2, 3] \<and>
   join '','' (map string_of_int [3, 1, 2]) = ''3,1,2'' \<and>
   join '','' (map string_of_int
      (fst (snd (fetchFeatureMatrix_begin 3 sample_columns [3, 1, 2] 0 mounted)))) = ''1,2,3'' \<and>
   fst (fetchFeatureMatrix_begin 3 sample_columns [1, 2, 3] 0 (sample_started [3, 1, 2])) = Awaiting \<and>
   requests (snd (snd (fetchFeatureMatrix_begin 3 sample_columns [1, 2, 3] 0
                         (sample_started [3, 1, 2])))) = [1, 2, 3, 1, 2, 3]"
proof -
  have a: "fst (snd (getCacheKey 3 [''EDA'', ''ECG''] [2, 1])) = [''ECG'', ''EDA'']"
    by (simp add: getCacheKey_def)
  have b: "snd (snd (getCacheKey 3 [''EDA'', ''ECG''] [2, 1])) = [1, 2]"
    by (simp add: getCacheKey_def)
  have c: "fst (snd (fetchFeatureMatrix_begin 3 sample_columns [3, 1, 2] 0 mounted)) = [1, 2, 3]"
    by code_simp
  have d: "join '','' (map string_of_int [3, 1, 2]) = ''3,1,2''"
    by code_simp
  have e: "join '','' (map string_of_int
      (fst (snd (fetchFeatureMatrix_begin 3 sample_columns [3, 1, 2] 0 mounted)))) = ''1,2,3''"
    by code_simp
  have f: "fst (fetchFeatureMatrix_begin 3 sample_columns [1, 2, 3] 0 (sample_started [3, 1, 2])) = Awaiting"
    by code_simp
  have g: "requests (snd (snd (fetchFeatureMatrix_begin 3 sample_columns [1, 2, 3] 0
                         (sample_started [3, 1, 2])))) = [1, 2, 3, 1, 2, 3]"
    by code_simp
  from a b c d e f g show ?thesis by blast
qed

subsection \<open>Per-subject fetcher\<close>

lemma fetchSubject_frame:
  assumes "fetchSubject res s = (r, s1)"
  shows "s1 = s\<lparr>featureCols := featureCols s1, featureColumns := featureColumns s1\<rparr>"
  using assms
  by (auto simp: fetchSubject_def Let_def split: fetch_result.splits body.splits option.splits if_splits)

lemma fetchSubject_failure:
  assumes "\<not> succeeds res"
  shows "\<exists>e. fetchSubject res s = (Inl e, s)"
  using assms
  by (auto simp: fetchSubject_def succeeds_def split: fetch_result.splits body.splits)

lemma fetchSubject_success:
  assumes "succeeds res"
  shows "fetchSubject res s =
     (Inr (map (transform_row (featureCols (snd (fetchSubject res s)))) (response_rows res)),
      snd (fetchSubject res s))"
  using assms
  by (auto simp: fetchSubject_def succeeds_def response_rows_def Let_def
      split: fetch_result.splits body.splits option.splits)



subsection \<open>One step of a worker\<close>

lemma resume_Some_iff: "(\<exists>s'. resume i res s = Some s') \<longleftrightarrow> i < length (pending s)"
  by (auto simp: resume_def Let_def split: prod.splits)

lemma resume_featureCols:
  assumes "resume i res s = Some s'"
  shows "featureCols s' = featureCols (snd (fetchSubject res s))"
    and "featureColumns s' = featureColumns (snd (fetchSubject res s))"
proof -
  obtain r s1 where f: "fetchSubject res s = (r, s1)" by (cases "fetchSubject res s")
  show "featureCols s' = featureCols (snd (fetchSubject res s))"
    using assms f
    by (auto simp: resume_def processNext_def Let_def
        split: if_splits sum.splits list.splits)
  show "featureColumns s' = featureColumns (snd (fetchSubject res s))"
    using assms f
    by (auto simp: resume_def processNext_def Let_def
        split: if_splits sum.splits list.splits)
qed

lemma resume_queue:
  assumes "resume i res s = Some s'"
  shows "queue s' = tl (queue s)"
    and "requests s' = requests s @ take 1 (queue s)"
    and "pending s' = (if queue s = [] then take i (pending s) @ drop (Suc i) (pending s)
                       else (pending s)[i := hd (queue s)])"
proof -
  obtain r s1 where f: "fetchSubject res s = (r, s1)" by (cases "fetchSubject res s")
  note fr = fetchSubject_frame [OF f]
  have q: "queue s1 = queue s" "requests s1 = requests s" "pending s1 = pending s"
    by (subst fr, simp)+
  show "queue s' = tl (queue s)"
    using assms f q
    by (auto simp: resume_def processNext_def Let_def
        split: if_splits sum.splits list.splits)
  show "requests s' = requests s @ take 1 (queue s)"
    using assms f q
    by (auto simp: resume_def processNext_def Let_def
        split: if_splits sum.splits list.splits)
  show "pending s' = (if queue s = [] then take i (pending s) @ drop (Suc i) (pending s)
                       else (pending s)[i := hd (queue s)])"
    using assms f q
    by (auto simp: resume_def processNext_def Let_def
        split: if_splits sum.splits list.splits)
qed


lemma resume_success:
  assumes "succeeds res" and "resume i res s = Some s'"
  shows "allRows s' = allRows s @ map (transform_row (featureCols s')) (response_rows res)"
    and "completedCount s' = Suc (completedCount s)"
    and "progress_updates s' = progress_updates s @ [CountUpdater]"
    and "loadingProgress s' = loadingProgress s"
    and "console s' = console s"
    and "data s' = allRows s'"
    and "progress_log s' = progress_log s"
proof -
  obtain r s1 where f: "fetchSubject res s = (r, s1)" by (cases "fetchSubject res s")
  from fetchSubject_success [OF assms(1), of s] f
  have r: "r = Inr (map (transform_row (featureCols s1)) (response_rows res))" by simp
  note fr = fetchSubject_frame [OF f]
  have q: "allRows s1 = allRows s" "completedCount s1 = completedCount s"
    "progress_log s1 = progress_log s" "loadingProgress s1 = loadingProgress s"
    "console s1 = console s" "progress_updates s1 = progress_updates s"
    by (subst fr, simp)+
  have fc: "featureCols s' = featureCols s1"
    using resume_featureCols(1) [OF assms(2)] f by simp
  show "allRows s' = allRows s @ map (transform_row (featureCols s')) (response_rows res)"
    unfolding fc using assms(2) f r q
    by (auto simp: resume_def processNext_def Let_def split: if_splits list.splits)
  show "completedCount s' = Suc (completedCount s)"
    using assms(2) f r q
    by (auto simp: resume_def processNext_def Let_def split: if_splits list.splits)
  show "progress_updates s' = progress_updates s @ [CountUpdater]"
    using assms(2) f r q
    by (auto simp: resume_def processNext_def Let_def split: if_splits list.splits)
  show "loadingProgress s' = loadingProgress s"
    using assms(2) f r q
    by (auto simp: resume_def processNext_def Let_def split: if_splits list.splits)
  show "console s' = console s"
    using assms(2) f r q
    by (auto simp: resume_def processNext_def Let_def split: if_splits list.splits)
  show "data s' = allRows s'"
    using assms(2) f r q
    by (auto simp: resume_def processNext_def Let_def split: if_splits list.splits)
  show "progress_log s' = progress_log s"
    using assms(2) f r q
    by (auto simp: resume_def processNext_def Let_def split: if_splits list.splits)
qed

lemma resume_failure:
  assumes "\<not> succeeds res" and "resume i res s = Some s'"
  shows "allRows s' = allRows s"
    and "completedCount s' = completedCount s"
    and "progress_log s' = progress_log s"
    and "loadingProgress s' = loadingProgress s"
    and "featureCols s' = featureCols s"
    and "data s' = data s"
    and "\<exists>e. console s' = console s @
           [(''Failed to fetch subject '' @ string_of_int (pending s ! i) @ '':'', e)]"
    and "progress_updates s' = progress_updates s"
proof -
  from fetchSubject_failure [OF assms(1), of s]
  obtain e where f: "fetchSubject res s = (Inl e, s)" by blast
  show "allRows s' = allRows s"
    using assms(2) f
    by (auto simp: resume_def processNext_def Let_def split: if_splits list.splits)
  show "completedCount s' = completedCount s"
    using assms(2) f
    by (auto simp: resume_def processNext_def Let_def split: if_splits list.splits)
  show "progress_log s' = progress_log s"
    using assms(2) f
    by (auto simp: resume_def processNext_def Let_def split: if_splits list.splits)
  show "loadingProgress s' = loadingProgress s"
    using assms(2) f
    by (auto simp: resume_def processNext_def Let_def split: if_splits list.splits)
  show "featureCols s' = featureCols s"
    using assms(2) f
    by (auto simp: resume_def processNext_def Let_def split: if_splits list.splits)
  show "data s' = data s"
    using assms(2) f
    by (auto simp: resume_def processNext_def Let_def split: if_splits list.splits)
  show "\<exists>e. console s' = console s @
           [(''Failed to fetch subject '' @ string_of_int (pending s ! i) @ '':'', e)]"
    using assms(2) f
    by (auto simp: resume_def processNext_def Let_def split: if_splits list.splits)
  show "progress_updates s' = progress_updates s"
    using assms(2) f
    by (auto simp: resume_def processNext_def Let_def split: if_splits list.splits)
qed

subsection \<open>The initial worker loop\<close>

lemma spawn_funpow:
  "(spawn ^^ k) s =
     s\<lparr>queue := drop k (queue s), requests := requests s @ take k (queue s),
       pending := pending s @ take k (queue s)\<rparr>"
proof (induction k arbitrary: s)
  case 0
  show ?case by simp
next
  case (Suc k)
  have "(spawn ^^ Suc k) s = (spawn ^^ k) (spawn s)" by (simp add: funpow_swap1)
  also have "\<dots> = s\<lparr>queue := drop (Suc k) (queue s),
                     requests := requests s @ take (Suc k) (queue s),
                     pending := pending s @ take (Suc k) (queue s)\<rparr>"
    unfolding Suc.IH by (cases "queue s") (simp_all add: spawn_def processNext_def)
  finally show ?case .
qed

lemma take_min_length: "take (min k (length xs)) xs = take k xs"
  by (simp add: min_def)

lemma drop_min_length: "drop (min k (length xs)) xs = drop k xs"
  by (simp add: min_def)

lemma begin_Awaiting:
  assumes "fetchFeatureMatrix_begin studyNumber availableColumns subjectIds now s = (Awaiting, ids', s1)"
  shows "subjectIds \<noteq> []" and "fftFeatures availableColumns \<noteq> []"
    and "ids' = sort subjectIds"
    and "queue s1 = drop CONCURRENCY_LIMIT ids'"
    and "pending s1 = take CONCURRENCY_LIMIT ids'"
    and "requests s1 = requests s @ take CONCURRENCY_LIMIT ids'"
    and "allRows s1 = []" and "featureCols s1 = []" and "completedCount s1 = 0"
    and "progress_updates s1 = progress_updates s @
           [SetProgress \<lparr>current = 0, total = length subjectIds, currentBatch = 0,
                          totalBatches = length subjectIds\<rparr>]"
    and "progress_log s1 = progress_log s"
    and "console s1 = console s" and "error s1 = None" and "loading s1 = True"
    and "cacheKey s1 = fst (getCacheKey studyNumber (fftFeatures availableColumns) subjectIds)"
    and "featureMatrixCache s1 = featureMatrixCache s"
    and "pcaCache s1 = pcaCache s"
    and "loadingProgress s1 = loadingProgress s"
  using assms
  by (auto simp: fetchFeatureMatrix_begin_def getCacheKey_def Let_def spawn_funpow
      take_min_length [where xs = "sort subjectIds", simplified]
      drop_min_length [where xs = "sort subjectIds", simplified]
      split: if_splits option.splits prod.splits)

subsection \<open>Runs of the scheduler\<close>

lemma run_ConsD:
  assumes "run ((i, res) # evs) s = Some s'"
  shows "\<exists>s1. resume i res s = Some s1 \<and> run evs s1 = Some s'"
  using assms by (auto split: option.splits)

lemma run_append:
  "run (evs @ evs') s = (case run evs s of None \<Rightarrow> None | Some s1 \<Rightarrow> run evs' s1)"
  by (induction evs arbitrary: s) (auto split: option.splits)

lemma run_queue:
  assumes "run evs s = Some s'"
  shows "queue s' = drop (length evs) (queue s)"
    and "requests s' = requests s @ take (length evs) (queue s)"
  using assms
proof (induction evs arbitrary: s)
  case Nil
  { case 1 then show ?case by simp }
  { case 2 then show ?case by simp }
next
  case (Cons ev evs)
  obtain i res where ev: "ev = (i, res)" by (cases ev)
  { case 1
    from run_ConsD [OF 1 [unfolded ev]]
    obtain s1 where a: "resume i res s = Some s1" and b: "run evs s1 = Some s'" by blast
    show ?case using Cons.IH(1) [OF b] resume_queue(1) [OF a] by (simp add: drop_Suc) }
  { case 2
    from run_ConsD [OF 2 [unfolded ev]]
    obtain s1 where a: "resume i res s = Some s1" and b: "run evs s1 = Some s'" by blast
    show ?case using Cons.IH(2) [OF b] resume_queue(1,2) [OF a]
      by (cases "queue s") simp_all }
qed

lemma resume_count:
  assumes "resume i res s = Some s'"
  shows "Suc (length (pending s') + length (queue s')) = length (pending s) + length (queue s)"
proof -
  from assms have i: "i < length (pending s)" using resume_Some_iff by blast
  show ?thesis
    using resume_queue(1,3) [OF assms] i by (cases "queue s") auto
qed

lemma run_count:
  assumes "run evs s = Some s'"
  shows "length (pending s') + length (queue s') + length evs = length (pending s) + length (queue s)"
  using assms
proof (induction evs arbitrary: s)
  case Nil
  then show ?case by simp
next
  case (Cons ev evs)
  obtain i res where ev: "ev = (i, res)" by (cases ev)
  from run_ConsD [OF Cons.prems [unfolded ev]]
  obtain s1 where a: "resume i res s = Some s1" and b: "run evs s1 = Some s'" by blast
  show ?case using Cons.IH [OF b] resume_count [OF a] by simp
qed


text \<open>The scheduler from the state in which the effect starts awaiting its workers.\<close>

lemma batch_shape:
  assumes b: "fetchFeatureMatrix_begin studyNumber availableColumns subjectIds now s0 = (Awaiting, ids', s1)"
    and r: "run evs s1 = Some s"
  shows "length evs \<le> length subjectIds"
    and "length (pending s) = min CONCURRENCY_LIMIT (length subjectIds - length evs)"
    and "queue s = drop (length evs + CONCURRENCY_LIMIT) ids'"
    and "requests s = requests s0 @ take (length evs + CONCURRENCY_LIMIT) ids'"
proof -
  have n: "length ids' = length subjectIds" using begin_Awaiting(3) [OF b] by simp
  have q1: "queue s1 = drop CONCURRENCY_LIMIT ids'" and p1: "pending s1 = take CONCURRENCY_LIMIT ids'"
    and r1: "requests s1 = requests s0 @ take CONCURRENCY_LIMIT ids'"
    using begin_Awaiting(4,5,6) [OF b] by simp_all
  show q: "queue s = drop (length evs + CONCURRENCY_LIMIT) ids'"
    using run_queue(1) [OF r] q1 by simp
  have c: "length (pending s) + length (queue s) + length evs = length subjectIds"
    using run_count [OF r] q1 p1 n by simp
  then show "length evs \<le> length subjectIds" by simp
  show "length (pending s) = min CONCURRENCY_LIMIT (length subjectIds - length evs)"
    using c q n by (simp add: min_def) arith
  show "requests s = requests s0 @ take (length evs + CONCURRENCY_LIMIT) ids'"
    using run_queue(2) [OF r] q1 r1 by (simp add: take_add add.commute)
qed

lemma response_rows_failure: "\<not> succeeds res \<Longrightarrow> response_rows res = []"
  by (auto simp: succeeds_def response_rows_def split: fetch_result.splits body.splits)

lemma fetchSubject_capture:
  "featureCols (snd (fetchSubject res s)) =
     (if featureCols s = [] then captured_columns res else featureCols s)"
  by (auto simp: fetchSubject_def captured_columns_def Let_def
      split: fetch_result.splits body.splits option.splits)


lemma run_featureCols:
  assumes "run evs s = Some s'"
  shows "featureCols s' =
     (if featureCols s \<noteq> [] then featureCols s
      else case find (\<lambda>ev. captured_columns (snd ev) \<noteq> []) evs of
             None \<Rightarrow> []
           | Some ev \<Rightarrow> captured_columns (snd ev))"
  using assms
proof (induction evs arbitrary: s)
  case Nil
  then show ?case by simp
next
  case (Cons ev evs)
  obtain i res where ev: "ev = (i, res)" by (cases ev)
  from run_ConsD [OF Cons.prems [unfolded ev]]
  obtain s1 where a: "resume i res s = Some s1" and b: "run evs s1 = Some s'" by blast
  have c: "featureCols s1 = (if featureCols s = [] then captured_columns res else featureCols s)"
    using resume_featureCols(1) [OF a] fetchSubject_capture by simp
  show ?case using Cons.IH [OF b] c ev by simp
qed

lemma run_rows_fixed_columns:
  assumes "run evs s = Some s'" and "featureCols s \<noteq> []"
  shows "allRows s' = allRows s @
           concat (map (\<lambda>ev. map (transform_row (featureCols s)) (response_rows (snd ev))) evs)"
  using assms
proof (induction evs arbitrary: s)
  case Nil
  then show ?case by simp
next
  case (Cons ev evs)
  obtain i res where ev: "ev = (i, res)" by (cases ev)
  from run_ConsD [OF Cons.prems(1) [unfolded ev]]
  obtain s1 where a: "resume i res s = Some s1" and b: "run evs s1 = Some s'" by blast
  have c: "featureCols s1 = featureCols s"
    using resume_featureCols(1) [OF a] fetchSubject_capture Cons.prems(2) by simp
  have d: "allRows s1 = allRows s @ map (transform_row (featureCols s)) (response_rows res)"
  proof (cases "succeeds res")
    case True
    from resume_success(1) [OF True a] c show ?thesis by simp
  next
    case False
    from resume_failure(1) [OF False a] response_rows_failure [OF False] show ?thesis by simp
  qed
  from Cons.IH [OF b] c Cons.prems(2) d ev show ?case by simp
qed



subsection \<open>Bounded task scheduler\<close>

lemma sample_begin:
  "fetchFeatureMatrix_begin 3 sample_columns [3, 1, 2, 7, 6, 5, 4] 0 mounted
     = (Awaiting, [1, 2, 3, 4, 5, 6, 7], sample_started [3, 1, 2, 7, 6, 5, 4])"
proof -
  have "fst (fetchFeatureMatrix_begin 3 sample_columns [3, 1, 2, 7, 6, 5, 4] 0 mounted) = Awaiting"
    by code_simp
  moreover have "fst (snd (fetchFeatureMatrix_begin 3 sample_columns [3, 1, 2, 7, 6, 5, 4] 0 mounted))
      = [1, 2, 3, 4, 5, 6, 7]"
    by code_simp
  ultimately show ?thesis by (simp add: prod_eq_iff sample_started_def)
qed

text \<open>
  C3. From the start of a batch and after any number of settled fetches, the number of
  workers awaiting a fetch is the minimum of the limit 5 and the number of subjects not
  yet settled; it never exceeds 5. After \<open>k\<close> settled fetches the first \<open>k + 5\<close> subjects
  of the queue have been requested: a worker whose fetch settles while the queue is not
  empty takes the head of the queue in the same step, in its own slot.
\<close>

theorem scheduler_bounded_replenishing:
  assumes "fetchFeatureMatrix_begin studyNumber availableColumns subjectIds now s0 = (Awaiting, ids', s1)"
    and "run evs s1 = Some s"
  shows "length (pending s) = min CONCURRENCY_LIMIT (length subjectIds - length evs) \<and>
         length (pending s) \<le> 5 \<and>
         requests s = requests s0 @ take (length evs + CONCURRENCY_LIMIT) ids' \<and>
         queue s = drop (length evs + CONCURRENCY_LIMIT) ids' \<and>
         (\<forall>i res. i < length (pending s) \<and> queue s \<noteq> [] \<longrightarrow>
            (\<exists>s'. resume i res s = Some s' \<and> pending s' = (pending s)[i := hd (queue s)] \<and>
                  queue s' = tl (queue s) \<and> requests s' = requests s @ [hd (queue s)]))"
proof -
  note sh = batch_shape [OF assms]
  have a: "length (pending s) \<le> 5" using sh(2) by (simp add: CONCURRENCY_LIMIT_def)
  have b: "\<exists>s'. resume i res s = Some s' \<and> pending s' = (pending s)[i := hd (queue s)] \<and>
                  queue s' = tl (queue s) \<and> requests s' = requests s @ [hd (queue s)]"
    if i: "i < length (pending s)" and q: "queue s \<noteq> []" for i res
  proof -
    from i obtain s' where r: "resume i res s = Some s'" using resume_Some_iff by blast
    from q obtain x xs where c: "queue s = x # xs" by (cases "queue s") auto
    from resume_queue [OF r] c r show ?thesis by simp
  qed
  from sh(2,3,4) a b show ?thesis by blast
qed

theorem scheduler_bounded_replenishing_witness:
  "fetchFeatureMatrix_begin 3 sample_columns [3, 1, 2, 7, 6, 5, 4] 0 mounted
     = (Awaiting, [1, 2, 3, 4, 5, 6, 7], sample_started [3, 1, 2, 7, 6, 5, 4]) \<and>
   run [(2, sample_failure 500)] (sample_started [3, 1, 2, 7, 6, 5, 4])
     = Some (the (run [(2, sample_failure 500)] (sample_started [3, 1, 2, 7, 6, 5, 4]))) \<and>
   pending (sample_started [3, 1, 2, 7, 6, 5, 4]) = [1, 2, 3, 4, 5] \<and>
   pending (the (run [(2, sample_failure 500)] (sample_started [3, 1, 2, 7, 6, 5, 4]))) = [1, 2, 6, 4, 5] \<and>
   requests (the (run [(2, sample_failure 500)] (sample_started [3, 1, 2, 7, 6, 5, 4]))) = [1, 2, 3, 4, 5, 6] \<and>
   queue (the (run [(2, sample_failure 500)] (sample_started [3, 1, 2, 7, 6, 5, 4]))) = [7]"
proof -
  have p: "map_option pending (run [(2, sample_failure 500)] (sample_started [3, 1, 2, 7, 6, 5, 4]))
             = Some [1, 2, 6, 4, 5]"
    by code_simp
  then have r: "run [(2, sample_failure 500)] (sample_started [3, 1, 2, 7, 6, 5, 4])
     = Some (the (run [(2, sample_failure 500)] (sample_started [3, 1, 2, 7, 6, 5, 4])))"
    by auto
  have p0: "pending (sample_started [3, 1, 2, 7, 6, 5, 4]) = [1, 2, 3, 4, 5]"
    by code_simp
  have r0: "requests mounted = []" by (simp add: mounted_def)
  from scheduler_bounded_replenishing [OF sample_begin r] p r p0 r0
  show ?thesis by (auto simp: CONCURRENCY_LIMIT_def sample_begin)
qed

lemma sample_begin3:
  "fetchFeatureMatrix_begin 3 sample_columns [3, 1, 2] 0 mounted
     = (Awaiting, [1, 2, 3], sample_started [3, 1, 2])"
proof -
  have "fst (fetchFeatureMatrix_begin 3 sample_columns [3, 1, 2] 0 mounted) = Awaiting"
    by code_simp
  moreover have "fst (snd (fetchFeatureMatrix_begin 3 sample_columns [3, 1, 2] 0 mounted)) = [1, 2, 3]"
    by code_simp
  ultimately show ?thesis by (simp add: prod_eq_iff sample_started_def)
qed

lemma sample_run3:
  "run sample_events (sample_started [3, 1, 2]) = Some (the (run sample_events (sample_started [3, 1, 2])))"
proof -
  have "map_option pending (run sample_events (sample_started [3, 1, 2])) = Some []"
    by code_simp
  then show ?thesis by auto
qed

subsection \<open>Progress\<close>

lemma apply_updates_CountUpdater:
  "apply_updates c (replicate m CountUpdater) prev
     = replicate m (prev\<lparr>current := c, currentBatch := c\<rparr>)"
  by (induction m arbitrary: prev) simp_all

lemma sorted_append_const:
  assumes "sorted (map current pubs)" and "pubs \<noteq> []" and "current (last pubs) \<le> c"
  shows "sorted (map current pubs @ replicate m c)"
proof -
  have "\<forall>x \<in> set (map current pubs). x \<le> current (last pubs)"
  proof
    fix x assume x: "x \<in> set (map current pubs)"
    then obtain i where i: "i < length pubs" and xi: "x = map current pubs ! i"
      by (metis in_set_conv_nth length_map)
    have "map current pubs ! i \<le> map current pubs ! (length pubs - 1)"
      using assms(1) i by (intro sorted_nth_mono) auto
    also have "\<dots> = current (last pubs)"
      using assms(2) by (simp add: last_conv_nth)
    finally show "x \<le> current (last pubs)" using xi by simp
  qed
  with assms show ?thesis by (auto simp: sorted_append)
qed

lemma render_frame:
  "completedCount (render s) = completedCount s \<and> pending (render s) = pending s \<and>
   queue (render s) = queue s"
  by (simp add: render_def Let_def)

lemma progress_inv_render:
  assumes "progress_inv n log0 s"
  shows "progress_inv n log0 (render s)"
proof -
  let ?c = "completedCount s"
  let ?p0 = "\<lparr>current = 0, total = n, currentBatch = 0, totalBatches = n\<rparr>"
  from assms consider
    (A) "progress_updates s = SetProgress ?p0 # replicate ?c CountUpdater" "progress_log s = log0"
  | (B) pubs m where "progress_updates s = replicate m CountUpdater"
      "progress_log s = log0 @ pubs" "pubs \<noteq> []" "loadingProgress s = last pubs"
      "sorted (map current pubs)" "\<forall>p \<in> set pubs. total p = n"
      "current (last pubs) + m = ?c" "length pubs + m = Suc ?c"
    unfolding progress_inv_def by blast
  then show ?thesis
  proof cases
    case A
    let ?new = "?p0 # replicate ?c (?p0\<lparr>current := ?c, currentBatch := ?c\<rparr>)"
    have v: "apply_updates ?c (progress_updates s) (loadingProgress s) = ?new"
      by (simp add: A(1) apply_updates_CountUpdater)
    have r: "render s = s\<lparr>loadingProgress := last ?new, progress_log := log0 @ ?new,
                          progress_updates := []\<rparr>"
      unfolding render_def v Let_def using A(2) by (simp del: replicate.simps last.simps)
    have l: "current (last ?new) = ?c" by (cases ?c) simp_all
    have "progress_updates (render s) = replicate 0 CountUpdater \<and>
        progress_log (render s) = log0 @ ?new \<and> ?new \<noteq> [] \<and>
        loadingProgress (render s) = last ?new \<and>
        sorted (map current ?new) \<and>
        (\<forall>p \<in> set ?new. total p = n) \<and>
        current (last ?new) + 0 = completedCount (render s) \<and>
        length ?new + 0 = Suc (completedCount (render s))"
      unfolding r using l by (auto simp del: replicate.simps)
    then show ?thesis unfolding progress_inv_def by blast
  next
    case B
    show ?thesis
    proof (cases m)
      case 0
      with B(1) have "render s = s" by (simp add: render_def)
      with assms show ?thesis by simp
    next
      case (Suc k)
      let ?q = "(last pubs)\<lparr>current := ?c, currentBatch := ?c\<rparr>"
      let ?new = "replicate m ?q"
      have v: "apply_updates ?c (progress_updates s) (loadingProgress s) = ?new"
        by (simp add: B(1,4) apply_updates_CountUpdater)
      have ne: "?new \<noteq> []" using Suc by simp
      have la: "last ?new = ?q" using Suc by simp
      have r: "render s = s\<lparr>loadingProgress := ?q, progress_log := log0 @ pubs @ ?new,
                          progress_updates := []\<rparr>"
        unfolding render_def v Let_def using B(2) ne la by (simp del: replicate.simps)
      have le: "current (last pubs) \<le> ?c" using B(7) by simp
      have so: "sorted (map current (pubs @ ?new))"
        using sorted_append_const [OF B(5) B(3) le, of m] by simp
      have tot: "\<forall>p \<in> set (pubs @ ?new). total p = n"
        using B(6) B(3) by auto
      have "progress_updates (render s) = replicate 0 CountUpdater \<and>
        progress_log (render s) = log0 @ (pubs @ ?new) \<and> pubs @ ?new \<noteq> [] \<and>
        loadingProgress (render s) = last (pubs @ ?new) \<and>
        sorted (map current (pubs @ ?new)) \<and>
        (\<forall>p \<in> set (pubs @ ?new). total p = n) \<and>
        current (last (pubs @ ?new)) + 0 = completedCount (render s) \<and>
        length (pubs @ ?new) + 0 = Suc (completedCount (render s))"
        unfolding r using so tot ne la B(8) by (simp del: replicate.simps)
      then show ?thesis unfolding progress_inv_def by blast
    qed
  qed
qed

lemma progress_inv_resume:
  assumes "progress_inv n log0 s" and "resume i res s = Some s'"
  shows "progress_inv n log0 s'"
proof (cases "succeeds res")
  case False
  from resume_failure(2,3,4,8) [OF False assms(2)] assms(1)
  show ?thesis by (simp add: progress_inv_def)
next
  case True
  note e = resume_success(2,3,4,7) [OF True assms(2)]
  let ?p0 = "\<lparr>current = 0, total = n, currentBatch = 0, totalBatches = n\<rparr>"
  from assms(1) consider
    (A) "progress_updates s = SetProgress ?p0 # replicate (completedCount s) CountUpdater"
        "progress_log s = log0"
  | (B) pubs m where "progress_updates s = replicate m CountUpdater"
      "progress_log s = log0 @ pubs" "pubs \<noteq> []" "loadingProgress s = last pubs"
      "sorted (map current pubs)" "\<forall>p \<in> set pubs. total p = n"
      "current (last pubs) + m = completedCount s" "length pubs + m = Suc (completedCount s)"
    unfolding progress_inv_def by blast
  then show ?thesis
  proof cases
    case A
    have "progress_updates s' = SetProgress ?p0 # replicate (completedCount s') CountUpdater"
      using e A(1) by (simp add: replicate_append_same)
    moreover have "progress_log s' = log0" using e A(2) by simp
    ultimately show ?thesis unfolding progress_inv_def by blast
  next
    case B
    have "progress_updates s' = replicate (Suc m) CountUpdater"
      using e B(1) by (simp add: replicate_append_same)
    moreover have "progress_log s' = log0 @ pubs" "loadingProgress s' = last pubs"
      "current (last pubs) + Suc m = completedCount s'"
      "length pubs + Suc m = Suc (completedCount s')"
      using e B by simp_all
    ultimately show ?thesis unfolding progress_inv_def using B(3,5,6) by blast
  qed
qed

lemma run_steps_progress:
  assumes "run_steps steps s = Some s'" and "progress_inv n log0 s"
  shows "progress_inv n log0 s' \<and>
         completedCount s' = completedCount s + length (filter step_succeeds steps) \<and>
         length (pending s') + length (queue s') + length (filter is_settle steps)
           = length (pending s) + length (queue s)"
  using assms
proof (induction steps arbitrary: s)
  case Nil
  then show ?case by simp
next
  case (Cons st steps)
  show ?case
  proof (cases st)
    case Render
    from Cons.prems(1) Render have r: "run_steps steps (render s) = Some s'" by simp
    from Cons.IH [OF r progress_inv_render [OF Cons.prems(2)]] render_frame [of s] Render
    show ?thesis by simp
  next
    case (Settle i res)
    from Cons.prems(1) Settle obtain s1 where a: "resume i res s = Some s1"
      and b: "run_steps steps s1 = Some s'"
      by (auto split: option.splits)
    have c: "completedCount s1 = completedCount s + (if succeeds res then 1 else 0)"
    proof (cases "succeeds res")
      case True
      with resume_success(2) [OF True a] show ?thesis by simp
    next
      case False
      with resume_failure(2) [OF False a] show ?thesis by simp
    qed
    from Cons.IH [OF b progress_inv_resume [OF Cons.prems(2) a]] c resume_count [OF a] Settle
    show ?thesis by simp
  qed
qed


lemma sorted_le_last:
  fixes xs :: "nat list"
  assumes "sorted xs" and "x \<in> set xs"
  shows "x \<le> last xs"
proof -
  from assms(2) obtain i where i: "i < length xs" and xi: "x = xs ! i"
    by (metis in_set_conv_nth)
  have "xs ! i \<le> xs ! (length xs - 1)"
    using assms(1) i by (intro sorted_nth_mono) auto
  also have "\<dots> = last xs" using i by (cases xs) (simp_all add: last_conv_nth)
  finally show ?thesis using xi by simp
qed

lemma successes_le_settles:
  "length (filter step_succeeds steps) \<le> length (filter is_settle steps)"
proof (induction steps)
  case Nil
  show ?case by simp
next
  case (Cons st steps)
  then show ?case by (cases st) auto
qed

text \<open>
  C2, as the claim states it, fails. In the batch of subjects 1, 2, 3 in which the fetch
  of subject 2 fails and the component is rendered after every step, the counts published
  are 0, 1, 2 while the total is 3: the failed subject is not counted, and the batch is at
  its end (no worker awaits) without the count reaching the total. In the batch in which
  the three fetches succeed before the component is rendered, the counts published are
  0, 3, 3, 3: the total is published three times.
\<close>

theorem progress_counts_failures_counterexample:
  "map_option (map current \<circ> progress_log) (run_steps sample_steps (sample_started [3, 1, 2]))
     = Some [0, 1, 2] \<and>
   map_option (map total \<circ> progress_log) (run_steps sample_steps (sample_started [3, 1, 2]))
     = Some [3, 3, 3] \<and>
   map_option pending (run_steps sample_steps (sample_started [3, 1, 2])) = Some [] \<and>
   map_option (map current \<circ> progress_log)
     (run_steps sample_steps_success (sample_started [3, 1, 2])) = Some [0, 3, 3, 3]"
proof -
  have a: "map_option (map current \<circ> progress_log) (run_steps sample_steps (sample_started [3, 1, 2]))
     = Some [0, 1, 2]"
    by code_simp
  have b: "map_option (map total \<circ> progress_log) (run_steps sample_steps (sample_started [3, 1, 2]))
     = Some [3, 3, 3]"
    by code_simp
  have c: "map_option pending (run_steps sample_steps (sample_started [3, 1, 2])) = Some []"
    by code_simp
  have d: "map_option (map current \<circ> progress_log)
     (run_steps sample_steps_success (sample_started [3, 1, 2])) = Some [0, 3, 3, 3]"
    by code_simp
  from a b c d show ?thesis by blast
qed

text \<open>
  C2, amended. Take a batch that starts with no update pending and is rendered at any
  times. The counts published are non-decreasing, each with the number of subjects as
  total, and none exceeds the number of fetches that have succeeded: failed subjects are
  not counted. There is one publication for the start of the batch and one for each
  success, once rendered; a count can be published several times and a value can be
  skipped. When no update is pending the last count published is the number of
  successes. The count reaches the total only when the fetches of all subjects have
  succeeded, and the batch is then at its end.
\<close>

theorem progress_counts_successes:
  assumes "fetchFeatureMatrix_begin studyNumber availableColumns subjectIds now s0 = (Awaiting, ids', s1)"
    and "progress_updates s0 = []"
    and "run_steps steps s1 = Some s"
  shows "\<exists>pubs. progress_log s = progress_log s0 @ pubs \<and>
           sorted (map current pubs) \<and>
           (\<forall>p \<in> set pubs. total p = length subjectIds \<and>
                            current p \<le> length (filter step_succeeds steps)) \<and>
           length pubs + length (progress_updates s) = Suc (length (filter step_succeeds steps)) \<and>
           completedCount s = length (filter step_succeeds steps) \<and>
           (progress_updates s = [] \<longrightarrow>
              pubs \<noteq> [] \<and> current (last pubs) = length (filter step_succeeds steps)) \<and>
           (length subjectIds \<in> set (map current pubs) \<longrightarrow>
              length (filter step_succeeds steps) = length subjectIds \<and>
              pending s = [] \<and> queue s = [])"
proof -
  let ?n = "length subjectIds"
  let ?k = "length (filter step_succeeds steps)"
  note b = begin_Awaiting [OF assms(1)]
  have i1: "progress_inv ?n (progress_log s0) s1"
    unfolding progress_inv_def using b(9,10,11) assms(2) by simp
  have n1: "length (pending s1) + length (queue s1) = ?n"
    using b(3,4,5) by simp
  from run_steps_progress [OF assms(3) i1] b(9) n1
  have inv: "progress_inv ?n (progress_log s0) s" and c: "completedCount s = ?k"
    and cnt: "length (pending s) + length (queue s) + length (filter is_settle steps) = ?n"
    by simp_all
  have kn: "?k \<le> ?n" using successes_le_settles [of steps] cnt by simp
  have fin: "pending s = [] \<and> queue s = []" if "?k = ?n"
  proof -
    from that successes_le_settles [of steps] cnt
    have "length (pending s) + length (queue s) = 0" by linarith
    then show ?thesis by simp
  qed
  let ?p0 = "\<lparr>current = 0, total = ?n, currentBatch = 0, totalBatches = ?n\<rparr>"
  from inv consider
    (A) "progress_updates s = SetProgress ?p0 # replicate (completedCount s) CountUpdater"
        "progress_log s = progress_log s0"
  | (B) pubs m where "progress_updates s = replicate m CountUpdater"
      "progress_log s = progress_log s0 @ pubs" "pubs \<noteq> []" "loadingProgress s = last pubs"
      "sorted (map current pubs)" "\<forall>p \<in> set pubs. total p = ?n"
      "current (last pubs) + m = completedCount s" "length pubs + m = Suc (completedCount s)"
    unfolding progress_inv_def by blast
  then show ?thesis
  proof cases
    case A
    show ?thesis
      by (rule exI [of _ "[]"]) (simp add: A c)
  next
    case B
    have la: "current (last pubs) \<le> ?k" using B(7) c by simp
    have le: "current p \<le> ?k" if "p \<in> set pubs" for p
    proof -
      from that have "current p \<in> set (map current pubs)" by simp
      from sorted_le_last [OF B(5) this] B(3) la show ?thesis by (simp add: last_map)
    qed
    have mem: "?k = ?n \<and> pending s = [] \<and> queue s = []" if "?n \<in> set (map current pubs)"
    proof -
      from that obtain p where "p \<in> set pubs" "current p = ?n" by auto
      with le [of p] kn have "?k = ?n" by simp
      with fin show ?thesis by simp
    qed
    have e: "pubs \<noteq> [] \<and> current (last pubs) = ?k" if "progress_updates s = []"
      using that B(1,3,7) c by simp
    show ?thesis
      apply (rule exI [of _ pubs])
      using B(2,5,6,8) B(1) c le mem e by simp
  qed
qed

lemma sample_run_steps3:
  "run_steps sample_steps (sample_started [3, 1, 2])
     = Some (the (run_steps sample_steps (sample_started [3, 1, 2])))"
proof -
  have "map_option pending (run_steps sample_steps (sample_started [3, 1, 2])) = Some []"
    by code_simp
  then show ?thesis by auto
qed

theorem progress_counts_successes_witness:
  "fetchFeatureMatrix_begin 3 sample_columns [3, 1, 2] 0 mounted
     = (Awaiting, [1, 2, 3], sample_started [3, 1, 2]) \<and>
   progress_updates mounted = [] \<and>
   run_steps sample_steps (sample_started [3, 1, 2])
     = Some (the (run_steps sample_steps (sample_started [3, 1, 2]))) \<and>
   length (filter step_succeeds sample_steps) = 2 \<and>
   progress_updates (the (run_steps sample_steps (sample_started [3, 1, 2]))) = [] \<and>
   sorted (map current (progress_log (the (run_steps sample_steps (sample_started [3, 1, 2]))))) \<and>
   current (last (progress_log (the (run_steps sample_steps (sample_started [3, 1, 2]))))) = 2 \<and>
   length (progress_log (the (run_steps sample_steps (sample_started [3, 1, 2])))) = 3 \<and>
   completedCount (the (run_steps sample_steps (sample_started [3, 1, 2]))) = 2"
proof -
  define s where "s = the (run_steps sample_steps (sample_started [3, 1, 2]))"
  have r: "run_steps sample_steps (sample_started [3, 1, 2]) = Some s"
    unfolding s_def by (rule sample_run_steps3)
  have k: "length (filter step_succeeds sample_steps) = 2" by code_simp
  have u0: "progress_updates mounted = []" by (simp add: mounted_def)
  have l0: "progress_log mounted = []" by (simp add: mounted_def)
  have "map_option progress_updates (run_steps sample_steps (sample_started [3, 1, 2])) = Some []"
    by code_simp
  with r have u: "progress_updates s = []" by simp
  from progress_counts_successes [OF sample_begin3 u0 r] k l0 u
  have "sorted (map current (progress_log s))" "current (last (progress_log s)) = 2"
    "length (progress_log s) = 3" "completedCount s = 2"
    by auto
  with sample_begin3 u0 r k u show ?thesis unfolding s_def by simp
qed

subsection \<open>Partial failure\<close>



subsection \<open>Feature columns\<close>

lemma map_of_fold_features:
  "map_of (fold (\<lambda>col fs. case item_get item col of
                Some (Num v) \<Rightarrow> AList.update col v fs
              | _ \<Rightarrow> fs) cols acc) c =
     (if c \<in> set cols
      then (case item_get item c of Some (Num v) \<Rightarrow> Some v | _ \<Rightarrow> map_of acc c)
      else map_of acc c)"
proof (induction cols arbitrary: acc)
  case Nil
  show ?case by simp
next
  case (Cons col cols)
  show ?case
    by (auto simp: Cons.IH update_conv' split: option.splits field.splits)
qed

lemma distinct_fold_features:
  "distinct (map fst acc) \<Longrightarrow>
   distinct (map fst (fold (\<lambda>col fs. case item_get item col of
                Some (Num v) \<Rightarrow> AList.update col v fs
              | _ \<Rightarrow> fs) cols acc))"
proof (induction cols arbitrary: acc)
  case Nil
  then show ?case by simp
next
  case (Cons col cols)
  show ?case
    by (auto intro!: Cons.IH simp: Cons.prems distinct_update split: option.splits field.splits)
qed

lemma transform_row_features:
  "map_of (features (transform_row cols item)) c =
     (if c \<in> set cols
      then (case item_get item c of Some (Num v) \<Rightarrow> Some v | _ \<Rightarrow> None)
      else None)"
  by (auto simp: transform_row_def map_of_fold_features split: option.splits field.splits)

lemma transform_row_distinct: "distinct (map fst (features (transform_row cols item)))"
proof -
  have "distinct (map fst ([] :: (string \<times> real) list))" by simp
  from distinct_fold_features [OF this] show ?thesis by (simp add: transform_row_def)
qed

lemma captured_columns_cases:
  "captured_columns res = [] \<or>
   (\<exists>cs. captured_columns res =
      filter (\<lambda>col. col \<noteq> ''Subject'' \<and> col \<noteq> ''Emotion'' \<and> col \<noteq> ''_color'') cs)"
  by (simp add: captured_columns_def split: fetch_result.splits body.splits option.splits) blast

lemma captured_columns_no_identity:
  "''Subject'' \<notin> set (captured_columns res) \<and> ''Emotion'' \<notin> set (captured_columns res) \<and>
   ''_color'' \<notin> set (captured_columns res)"
proof -
  from captured_columns_cases [of res] show ?thesis
  proof
    assume "captured_columns res = []"
    then show ?thesis by simp
  next
    assume "\<exists>cs. captured_columns res =
      filter (\<lambda>col. col \<noteq> ''Subject'' \<and> col \<noteq> ''Emotion'' \<and> col \<noteq> ''_color'') cs"
    then obtain cs where "captured_columns res =
      filter (\<lambda>col. col \<noteq> ''Subject'' \<and> col \<noteq> ''Emotion'' \<and> col \<noteq> ''_color'') cs" ..
    then show ?thesis by simp
  qed
qed

text \<open>
  C8, as the claim states it, fails. In this batch the first response is successful and
  lists \<open>ECG_mean\<close>, but it has no row collection and \<open>fetchSubject\<close> returns before
  the capture; the second is successful and yields the empty set, so a row with no
  features is produced; the set in force at the end, \<open>EDA_mean\<close>, comes from the third
  response.
\<close>

theorem featureCols_first_response_counterexample:
  "succeeds (snd (sample_events_columns ! 0)) \<and>
   map_option featureCols (run (take 1 sample_events_columns) (sample_started [3, 1, 2])) = Some [] \<and>
   succeeds (snd (sample_events_columns ! 1)) \<and>
   map_option featureCols (run (take 2 sample_events_columns) (sample_started [3, 1, 2])) = Some [] \<and>
   map_option featureCols (run sample_events_columns (sample_started [3, 1, 2])) = Some [''EDA_mean''] \<and>
   map_option (map features \<circ> allRows) (run sample_events_columns (sample_started [3, 1, 2]))
     = Some [[], [(''EDA_mean'', 3)]]"
proof -
  have a: "succeeds (snd (sample_events_columns ! 0))" by code_simp
  have b: "map_option featureCols (run (take 1 sample_events_columns) (sample_started [3, 1, 2])) = Some []"
    by code_simp
  have c: "succeeds (snd (sample_events_columns ! 1))" by code_simp
  have d: "map_option featureCols (run (take 2 sample_events_columns) (sample_started [3, 1, 2])) = Some []"
    by code_simp
  have e: "map_option featureCols (run sample_events_columns (sample_started [3, 1, 2])) = Some [''EDA_mean'']"
    by code_simp
  have f: "map_option (map features \<circ> allRows) (run sample_events_columns (sample_started [3, 1, 2]))
     = Some [[], [(''EDA_mean'', 3)]]"
    by code_simp
  from a b c d e f show ?thesis by blast
qed

text \<open>
  C8, amended. In a batch the feature-column set is the column list, without
  \<open>Subject\<close>, \<open>Emotion\<close> and \<open>_color\<close>, of the first successful response that has a row
  collection and a column list with at least one other column; until such a response
  settles the set is empty. Once it is not empty it does not change for the rest of the
  batch, whatever columns later responses list, and every later row is the
  transformation of a response row with that set: its features are the fields of the
  set whose value in the response row is a number.
\<close>

theorem featureCols_single_assignment:
  assumes "fetchFeatureMatrix_begin studyNumber availableColumns subjectIds now s0 = (Awaiting, ids', s1)"
    and "run evs s1 = Some s"
    and "run evs' s = Some s'"
  shows "featureCols s =
           (case find (\<lambda>ev. captured_columns (snd ev) \<noteq> []) evs of
              None \<Rightarrow> []
            | Some ev \<Rightarrow> captured_columns (snd ev)) \<and>
         ''Subject'' \<notin> set (featureCols s) \<and> ''Emotion'' \<notin> set (featureCols s) \<and>
         ''_color'' \<notin> set (featureCols s) \<and>
         (featureCols s \<noteq> [] \<longrightarrow>
            featureCols s' = featureCols s \<and>
            allRows s' = allRows s @
              concat (map (\<lambda>ev. map (transform_row (featureCols s)) (response_rows (snd ev))) evs')) \<and>
         (\<forall>item c. map_of (features (transform_row (featureCols s) item)) c =
            (if c \<in> set (featureCols s)
             then (case item_get item c of Some (Num v) \<Rightarrow> Some v | _ \<Rightarrow> None)
             else None))"
proof -
  note b = begin_Awaiting [OF assms(1)]
  have a: "featureCols s =
           (case find (\<lambda>ev. captured_columns (snd ev) \<noteq> []) evs of
              None \<Rightarrow> []
            | Some ev \<Rightarrow> captured_columns (snd ev))"
    using run_featureCols [OF assms(2)] b(8) by simp
  have n: "''Subject'' \<notin> set (featureCols s) \<and> ''Emotion'' \<notin> set (featureCols s) \<and>
         ''_color'' \<notin> set (featureCols s)"
    unfolding a using captured_columns_no_identity by (auto split: option.splits)
  have f: "featureCols s' = featureCols s \<and>
            allRows s' = allRows s @
              concat (map (\<lambda>ev. map (transform_row (featureCols s)) (response_rows (snd ev))) evs')"
    if "featureCols s \<noteq> []"
    using run_featureCols [OF assms(3)] run_rows_fixed_columns [OF assms(3) that] that by simp
  from a n f transform_row_features show ?thesis by blast
qed


theorem featureCols_single_assignment_witness:
  "fetchFeatureMatrix_begin 3 sample_columns [3, 1, 2] 0 mounted
     = (Awaiting, [1, 2, 3], sample_started [3, 1, 2]) \<and>
   run (take 2 sample_events) (sample_started [3, 1, 2])
     = Some (the (run (take 2 sample_events) (sample_started [3, 1, 2]))) \<and>
   run (drop 2 sample_events) (the (run (take 2 sample_events) (sample_started [3, 1, 2])))
     = Some (the (run sample_events (sample_started [3, 1, 2]))) \<and>
   featureCols (the (run (take 2 sample_events) (sample_started [3, 1, 2]))) = [''ECG_mean'', ''note''] \<and>
   featureCols (the (run sample_events (sample_started [3, 1, 2]))) = [''ECG_mean'', ''note''] \<and>
   map features (allRows (the (run sample_events (sample_started [3, 1, 2]))))
     = [[(''ECG_mean'', 72)], [(''ECG_mean'', 72)], [(''ECG_mean'', 72)]]"
proof -
  define s where "s = the (run (take 2 sample_events) (sample_started [3, 1, 2]))"
  define s' where "s' = the (run sample_events (sample_started [3, 1, 2]))"
  have "map_option pending (run (take 2 sample_events) (sample_started [3, 1, 2])) = Some [3]"
    by code_simp
  then have r1: "run (take 2 sample_events) (sample_started [3, 1, 2]) = Some s"
    unfolding s_def by auto
  have r: "run sample_events (sample_started [3, 1, 2]) = Some s'"
    unfolding s'_def by (rule sample_run3)
  have "run (take 2 sample_events @ drop 2 sample_events) (sample_started [3, 1, 2]) = Some s'"
    using r by simp
  then have r2: "run (drop 2 sample_events) s = Some s'"
    unfolding run_append r1 by simp
  have c: "(case find (\<lambda>ev. captured_columns (snd ev) \<noteq> []) (take 2 sample_events) of
              None \<Rightarrow> []
            | Some ev \<Rightarrow> captured_columns (snd ev)) = [''ECG_mean'', ''note'']"
    by code_simp
  have a0: "map features (allRows s) = [[(''ECG_mean'', 72)], [(''ECG_mean'', 72)]]"
    unfolding s_def by code_simp
  have a1: "map features (concat (map (\<lambda>ev. map (transform_row [''ECG_mean'', ''note''])
               (response_rows (snd ev))) (drop 2 sample_events))) = [[(''ECG_mean'', 72)]]"
    by code_simp
  from featureCols_single_assignment [OF sample_begin3 r1 r2] c
  have fc: "featureCols s = [''ECG_mean'', ''note'']" and fc': "featureCols s' = [''ECG_mean'', ''note'']"
    and rows: "allRows s' = allRows s @ concat (map (\<lambda>ev. map (transform_row [''ECG_mean'', ''note''])
               (response_rows (snd ev))) (drop 2 sample_events))"
    by simp_all
  have "map features (allRows s') = [[(''ECG_mean'', 72)], [(''ECG_mean'', 72)], [(''ECG_mean'', 72)]]"
    unfolding rows using a0 a1 by simp
  with sample_begin3 r1 r2 fc fc' show ?thesis unfolding s_def s'_def by simp
qed

subsection \<open>Rows cache\<close>





subsection \<open>PCA request orchestrator\<close>

text \<open>
  C1, as the claim states it, fails. With three rows on display and a response holding
  points for subjects 1 and 2, \<open>onGeneratePCA\<close> receives two rows: the row of subject 3
  is not passed through.
\<close>

theorem pca_join_drops_unmatched_rows_counterexample:
  "map row_key sample_rows = [(1, ''Fear'', ''#ff0000''), (2, ''Fear'', ''#ff0000''), (3, ''Fear'', ''#ff0000'')] \<and>
   map_option (map (\<lambda>r. (subjectId r, emotion r, pc1 r, pc2 r)) \<circ> fst \<circ> snd)
     (fst (generatePCA 3 sample_columns [3, 1, 2] 0 (sample_pca (Some sample_points)) 10
             (mounted\<lparr>data := sample_rows\<rparr>)))
     = Some [(1, ''Fear'', Some 4, Some (- 1)), (2, ''Fear'', Some 2, Some 5)]"
proof -
  have a: "map row_key sample_rows = [(1, ''Fear'', ''#ff0000''), (2, ''Fear'', ''#ff0000''), (3, ''Fear'', ''#ff0000'')]"
    by code_simp
  have b: "map_option (map (\<lambda>r. (subjectId r, emotion r, pc1 r, pc2 r)) \<circ> fst \<circ> snd)
     (fst (generatePCA 3 sample_columns [3, 1, 2] 0 (sample_pca (Some sample_points)) 10
             (mounted\<lparr>data := sample_rows\<rparr>)))
     = Some [(1, ''Fear'', Some 4, Some (- 1)), (2, ''Fear'', Some 2, Some 5)]"
    by code_simp
  from a b show ?thesis by blast
qed

text \<open>
  C1, amended. The join returns one row for each returned point, in the order of the
  points: it carries the point's subject id, emotion label, colour and projection
  coordinates, and the features of the first input row with the same subject id and
  emotion label (no features when no input row matches). An input row is represented in
  the result exactly when some returned point has its subject id and emotion label; the
  other input rows are dropped. On a cache miss with a successful response these are the
  rows handed to \<open>onGeneratePCA\<close>.
\<close>

theorem pca_join_follows_points:
  "length (dataWithPCA rs pts) = length pts \<and>
   map (\<lambda>r. (subjectId r, emotion r, color r, pc1 r, pc2 r)) (dataWithPCA rs pts)
     = map (\<lambda>p. (subject_id p, pt_emotion p, pt_color p, Some (pt_pc1 p), Some (pt_pc2 p))) pts \<and>
   map features (dataWithPCA rs pts)
     = map (\<lambda>p. case find (\<lambda>d. subjectId d = subject_id p \<and> emotion d = pt_emotion p) rs of
                   None \<Rightarrow> [] | Some d \<Rightarrow> features d) pts \<and>
   (\<forall>d \<in> set rs.
      (subjectId d, emotion d) \<in> set (map (\<lambda>r. (subjectId r, emotion r)) (dataWithPCA rs pts))
        \<longleftrightarrow> (\<exists>p \<in> set pts. subject_id p = subjectId d \<and> pt_emotion p = emotion d)) \<and>
   (pcaCache s (fst (getCacheKey studyNumber (fftFeatures availableColumns) subjectIds)) = None \<and>
    ok response \<and> json response = Json pcaResult \<and> data_points pcaResult = Some pts \<longrightarrow>
      fst (generatePCA_try studyNumber availableColumns subjectIds t0 (Resolved response) t1 s)
        = Inr (featureColumns s, dataWithPCA (data s) pts, variance_explained pcaResult))"
proof -
  have a: "length (dataWithPCA rs pts) = length pts" by (simp add: dataWithPCA_def)
  have b: "map (\<lambda>r. (subjectId r, emotion r, color r, pc1 r, pc2 r)) (dataWithPCA rs pts)
     = map (\<lambda>p. (subject_id p, pt_emotion p, pt_color p, Some (pt_pc1 p), Some (pt_pc2 p))) pts"
    by (simp add: dataWithPCA_def Let_def comp_def)
  have c: "map features (dataWithPCA rs pts)
     = map (\<lambda>p. case find (\<lambda>d. subjectId d = subject_id p \<and> emotion d = pt_emotion p) rs of
                   None \<Rightarrow> [] | Some d \<Rightarrow> features d) pts"
    by (simp add: dataWithPCA_def Let_def comp_def)
  have k: "map (\<lambda>r. (subjectId r, emotion r)) (dataWithPCA rs pts)
         = map (\<lambda>p. (subject_id p, pt_emotion p)) pts"
    by (simp add: dataWithPCA_def Let_def comp_def)
  have d: "\<forall>d \<in> set rs.
      (subjectId d, emotion d) \<in> set (map (\<lambda>r. (subjectId r, emotion r)) (dataWithPCA rs pts))
        \<longleftrightarrow> (\<exists>p \<in> set pts. subject_id p = subjectId d \<and> pt_emotion p = emotion d)"
    unfolding k by force
  have e: "fst (generatePCA_try studyNumber availableColumns subjectIds t0 (Resolved response) t1 s)
        = Inr (featureColumns s, dataWithPCA (data s) pts, variance_explained pcaResult)"
    if "pcaCache s (fst (getCacheKey studyNumber (fftFeatures availableColumns) subjectIds)) = None"
      and "ok response" and "json response = Json pcaResult" and "data_points pcaResult = Some pts"
    using that by (simp add: generatePCA_try_def getCacheKey_def Let_def)
  from a b c d e show ?thesis by blast
qed


theorem pca_join_follows_points_witness:
  "length (dataWithPCA sample_rows sample_points) = 2 \<and>
   map (\<lambda>r. (subjectId r, emotion r, color r, pc1 r, pc2 r)) (dataWithPCA sample_rows sample_points)
     = [(1, ''Fear'', ''#00ff00'', Some 4, Some (- 1)), (2, ''Fear'', ''#00ff00'', Some 2, Some 5)] \<and>
   map features (dataWithPCA sample_rows sample_points)
     = [[(''ECG_mean'', 72), (''EDA_mean'', 3)], [(''ECG_mean'', 72), (''EDA_mean'', 3)]] \<and>
   pcaCache (mounted\<lparr>data := sample_rows\<rparr>) (fst (getCacheKey 3 (fftFeatures sample_columns) [3, 1, 2])) = None \<and>
   fst (generatePCA_try 3 sample_columns [3, 1, 2] 0 (sample_pca (Some sample_points)) 10
          (mounted\<lparr>data := sample_rows\<rparr>))
     = Inr ([], dataWithPCA sample_rows sample_points, (2, 1))"
proof -
  have l: "length sample_points = 2" by code_simp
  have m: "map (\<lambda>p. (subject_id p, pt_emotion p, pt_color p, Some (pt_pc1 p), Some (pt_pc2 p))) sample_points
     = [(1, ''Fear'', ''#00ff00'', Some 4, Some (- 1)), (2, ''Fear'', ''#00ff00'', Some 2, Some 5)]"
    by (simp add: sample_points_def)
  have f: "map (\<lambda>p. case find (\<lambda>d. subjectId d = subject_id p \<and> emotion d = pt_emotion p) sample_rows of
                   None \<Rightarrow> [] | Some d \<Rightarrow> features d) sample_points
     = [[(''ECG_mean'', 72), (''EDA_mean'', 3)], [(''ECG_mean'', 72), (''EDA_mean'', 3)]]"
    by code_simp
  have c: "pcaCache (mounted\<lparr>data := sample_rows\<rparr>) (fst (getCacheKey 3 (fftFeatures sample_columns) [3, 1, 2])) = None"
    by (simp add: mounted_def)
  have fc: "featureColumns (mounted\<lparr>data := sample_rows\<rparr>) = []" by (simp add: mounted_def)
  from pca_join_follows_points
      [where rs = sample_rows and pts = sample_points and s = "mounted\<lparr>data := sample_rows\<rparr>"
         and studyNumber = 3 and availableColumns = sample_columns and subjectIds = "[3, 1, 2]"
         and response = "\<lparr>ok = True, status = 200,
               json = Json \<lparr>variance_explained = (2, 1), data_points = Some sample_points\<rparr>\<rparr>"
         and pcaResult = "\<lparr>variance_explained = (2, 1), data_points = Some sample_points\<rparr>"
         and ?t0.0 = 0 and ?t1.0 = 10]
    l m f c fc
  show ?thesis by (simp add: sample_pca_def)
qed


text \<open>
  When the aggregate fetch fails (rejection, non-success status, unparseable body) the
  PCA cache is left as it was.
\<close>

lemma generatePCA_failure_keeps_cache:
  assumes "\<not> succeeds res"
  shows "pcaCache (snd (snd (generatePCA studyNumber availableColumns subjectIds t0 res t1 s))) = pcaCache s"
  using assms
  by (auto simp: generatePCA_def generatePCA_try_def succeeds_def getCacheKey_def Let_def
      split: fetch_result.splits body.splits option.splits prod.splits sum.splits js_error.splits if_splits)

text \<open>
  C5. The handler writes the cache entry before it checks \<open>data_points\<close>. Here the cache
  is empty, the response has a success status and no point collection: the handler fails
  with \<open>Invalid PCA response: data_points not found\<close> and the cache holds the response
  under the key of the query. A second click ten seconds later, for which a valid
  response would be available, is answered from the cache and fails in the same way
  without a request.
\<close>

theorem pca_cache_written_before_validation:
  "pcaCache mounted ''3:ECG,EDA:1,2,3'' = None \<and>
   fst (generatePCA 3 sample_columns [3, 1, 2] 0 (sample_pca None) 10 mounted) = None \<and>
   error (snd (snd (generatePCA 3 sample_columns [3, 1, 2] 0 (sample_pca None) 10 mounted)))
     = Some ''Invalid PCA response: data_points not found'' \<and>
   pcaCache (snd (snd (generatePCA 3 sample_columns [3, 1, 2] 0 (sample_pca None) 10 mounted)))
       ''3:ECG,EDA:1,2,3''
     = Some (\<lparr>variance_explained = (2, 1), data_points = None\<rparr>, 10) \<and>
   fst (generatePCA 3 sample_columns [1, 2, 3] 20 (sample_pca (Some sample_points)) 30
          (snd (snd (generatePCA 3 sample_columns [3, 1, 2] 0 (sample_pca None) 10 mounted)))) = None \<and>
   error (snd (snd (generatePCA 3 sample_columns [1, 2, 3] 20 (sample_pca (Some sample_points)) 30
          (snd (snd (generatePCA 3 sample_columns [3, 1, 2] 0 (sample_pca None) 10 mounted))))))
     = Some ''Invalid PCA response: data_points not found''"
proof -
  have a: "pcaCache mounted ''3:ECG,EDA:1,2,3'' = None" by (simp add: mounted_def)
  have b: "fst (generatePCA 3 sample_columns [3, 1, 2] 0 (sample_pca None) 10 mounted) = None"
    by code_simp
  have c: "error (snd (snd (generatePCA 3 sample_columns [3, 1, 2] 0 (sample_pca None) 10 mounted)))
     = Some ''Invalid PCA response: data_points not found''"
    by code_simp
  have d: "pcaCache (snd (snd (generatePCA 3 sample_columns [3, 1, 2] 0 (sample_pca None) 10 mounted)))
       ''3:ECG,EDA:1,2,3''
     = Some (\<lparr>variance_explained = (2, 1), data_points = None\<rparr>, 10)"
    by code_simp
  have e: "fst (generatePCA 3 sample_columns [1, 2, 3] 20 (sample_pca (Some sample_points)) 30
          (snd (snd (generatePCA 3 sample_columns [3, 1, 2] 0 (sample_pca None) 10 mounted)))) = None"
    by code_simp
  have f: "error (snd (snd (generatePCA 3 sample_columns [1, 2, 3] 20 (sample_pca (Some sample_points)) 30
          (snd (snd (generatePCA 3 sample_columns [3, 1, 2] 0 (sample_pca None) 10 mounted))))))
     = Some ''Invalid PCA response: data_points not found''"
    by code_simp
  from a b c d e f show ?thesis by blast
qed

end
